theory Spec2Isabelle
  imports Main "HOL-Library.Sublist"
begin

section \<open>JavaScript string primitives used by the packager\<close>

text \<open>
  Strings are lists of characters; an offset counts characters, as a JavaScript offset
  counts UTF-16 code units. Only the string operations that \<open>_packageESM\<close> and
  \<open>findNodeModuleImport\<close> call are modelled.
\<close>

definition slash :: char where
  "slash = CHR 0x2F"

definition backslash :: char where
  "backslash = CHR 0x5C"

text \<open>\<open>s.indexOf(t) === 0\<close>\<close>

definition startsWith :: "string \<Rightarrow> string \<Rightarrow> bool" where
  "startsWith s t = prefix t s"

text \<open>\<open>s.indexOf(t)\<close>: the first offset at which \<open>t\<close> occurs, \<open>None\<close> for \<open>-1\<close>.\<close>

fun indexOf :: "string \<Rightarrow> string \<Rightarrow> nat option" where
  "indexOf [] t = (if t = [] then Some 0 else None)"
| "indexOf (c # cs) t =
     (if prefix t (c # cs) then Some 0 else map_option Suc (indexOf cs t))"

text \<open>
  The replacement text of \<open>String.prototype.replace\<close> with a string pattern
  (ECMAScript GetSubstitution without captures): \<open>$$\<close> is a dollar sign, \<open>$&\<close> the
  matched text, \<open>$`\<close> the text before the match and \<open>$'\<close> the text after it; any other
  character stands for itself.
\<close>

fun getSubstitution :: "string \<Rightarrow> string \<Rightarrow> string \<Rightarrow> string \<Rightarrow> string" where
  "getSubstitution matched preceding following [] = []"
| "getSubstitution matched preceding following [c] = [c]"
| "getSubstitution matched preceding following (c # d # r) =
     (if c = CHR 0x24 \<and> d = CHR 0x24 then CHR 0x24 # getSubstitution matched preceding following r
      else if c = CHR 0x24 \<and> d = CHR 0x26 then matched @ getSubstitution matched preceding following r
      else if c = CHR 0x24 \<and> d = CHR 0x60 then preceding @ getSubstitution matched preceding following r
      else if c = CHR 0x24 \<and> d = CHR 0x27 then following @ getSubstitution matched preceding following r
      else c # getSubstitution matched preceding following (d # r))"

text \<open>\<open>s.replace(t, r)\<close> with a string pattern: the first occurrence only.\<close>

definition replaceFirst :: "string \<Rightarrow> string \<Rightarrow> string \<Rightarrow> string" where
  "replaceFirst s t r =
     (case indexOf s t of
        None \<Rightarrow> s
      | Some i \<Rightarrow>
          take i s @ getSubstitution t (take i s) (drop (i + length t) s) r
            @ drop (i + length t) s)"

text \<open>\<open>s.replace(/\\/g, '/')\<close>\<close>

definition toForwardSlashes :: "string \<Rightarrow> string" where
  "toForwardSlashes s = map (\<lambda>c. if c = backslash then slash else c) s"

text \<open>\<open>s.replace(/\.js$/, '')\<close>\<close>

definition stripJs :: "string \<Rightarrow> string" where
  "stripJs s = (if suffix ''.js'' s then take (length s - 3) s else s)"

text \<open>\<open>s.replace(/(\/|\\)$/, '')\<close>\<close>

definition stripTrailingSeparator :: "string \<Rightarrow> string" where
  "stripTrailingSeparator s =
     (if s \<noteq> [] \<and> (last s = slash \<or> last s = backslash) then butlast s else s)"

text \<open>\<open>/(^\.\/)|(^\.\.\/)/.test(s)\<close>\<close>

definition isRelativeSpecifier :: "string \<Rightarrow> bool" where
  "isRelativeSpecifier s = (prefix ''./'' s \<or> prefix ''../'' s)"

text \<open>\<open>s.lastIndexOf(c)\<close> for a single character.\<close>

fun lastIndexOfChar :: "string \<Rightarrow> char \<Rightarrow> nat option" where
  "lastIndexOfChar [] c = None"
| "lastIndexOfChar (x # xs) c =
     (case lastIndexOfChar xs c of
        Some i \<Rightarrow> Some (Suc i)
      | None \<Rightarrow> if x = c then Some 0 else None)"

section \<open>The \<open>path\<close> module of Node.js, POSIX flavour\<close>

text \<open>
  \<open>path\<close> is a library of the runtime, not of this repository. Its four functions that
  the packager calls are modelled on path segments, after the documented behaviour of
  \<open>path.posix\<close>: \<open>normalize\<close>, \<open>join\<close>, \<open>dirname\<close> and \<open>relative\<close>.
\<close>

fun splitOn :: "char \<Rightarrow> string \<Rightarrow> string list" where
  "splitOn c [] = [[]]"
| "splitOn c (x # xs) =
     (if x = c then [] # splitOn c xs
      else (case splitOn c xs of [] \<Rightarrow> [[x]] | w # ws \<Rightarrow> (x # w) # ws))"

fun joinWith :: "char \<Rightarrow> string list \<Rightarrow> string" where
  "joinWith c [] = []"
| "joinWith c [s] = s"
| "joinWith c (s # t # ss) = s @ c # joinWith c (t # ss)"

text \<open>One step of \<open>normalizeString\<close>: empty and \<open>.\<close> segments vanish, \<open>..\<close> removes the
  segment before it, or stays when there is none to remove and the path is relative.\<close>

definition normalizeSegment :: "bool \<Rightarrow> string list \<Rightarrow> string \<Rightarrow> string list" where
  "normalizeSegment allowAboveRoot res s =
     (if s = [] \<or> s = ''.'' then res
      else if s = ''..'' then
        (if res \<noteq> [] \<and> last res \<noteq> ''..'' then butlast res
         else if allowAboveRoot then res @ [''..'']
         else res)
      else res @ [s])"

definition normalizeSegments :: "bool \<Rightarrow> string \<Rightarrow> string list" where
  "normalizeSegments allowAboveRoot p =
     foldl (normalizeSegment allowAboveRoot) [] (splitOn slash p)"

definition isAbsolute :: "string \<Rightarrow> bool" where
  "isAbsolute p = (p \<noteq> [] \<and> hd p = slash)"

definition normalize :: "string \<Rightarrow> string" where
  "normalize p =
     (if p = [] then ''.''
      else
        let trailingSeparator = (last p = slash);
            r = joinWith slash (normalizeSegments (\<not> isAbsolute p) p)
        in if r = [] then
             (if isAbsolute p then ''/'' else if trailingSeparator then ''./'' else ''.'')
           else (if isAbsolute p then ''/'' else []) @ r
                  @ (if trailingSeparator then ''/'' else []))"

definition join :: "string list \<Rightarrow> string" where
  "join parts =
     (let joined = joinWith slash (filter (\<lambda>s. s \<noteq> []) parts)
      in if joined = [] then ''.'' else normalize joined)"

text \<open>The scan of \<open>dirname\<close>: from the last character down to offset 1, the first slash
  met after a character that is not a slash.\<close>

fun dirnameScan :: "string \<Rightarrow> nat \<Rightarrow> bool \<Rightarrow> nat option" where
  "dirnameScan p 0 matchedSlash = None"
| "dirnameScan p (Suc i) matchedSlash =
     (if p ! Suc i = slash then
        (if matchedSlash then dirnameScan p i matchedSlash else Some (Suc i))
      else dirnameScan p i False)"

definition dirname :: "string \<Rightarrow> string" where
  "dirname p =
     (if p = [] then ''.''
      else
        (case dirnameScan p (length p - 1) True of
           None \<Rightarrow> if isAbsolute p then ''/'' else ''.''
         | Some e \<Rightarrow> if isAbsolute p \<and> e = 1 then ''//'' else take e p))"

text \<open>\<open>path.resolve\<close> of one path, as segments; \<open>cwd\<close> is the working directory of the
  process, an absolute path.\<close>

definition resolveSegments :: "string \<Rightarrow> string \<Rightarrow> string list" where
  "resolveSegments cwd p =
     normalizeSegments False (if isAbsolute p then p else cwd @ ''/'' @ p)"

fun dropCommon :: "string list \<Rightarrow> string list \<Rightarrow> string list \<times> string list" where
  "dropCommon (x # xs) (y # ys) = (if x = y then dropCommon xs ys else (x # xs, y # ys))"
| "dropCommon xs ys = (xs, ys)"

definition relative :: "string \<Rightarrow> string \<Rightarrow> string \<Rightarrow> string" where
  "relative cwd from to =
     (if from = to then []
      else
        (case dropCommon (resolveSegments cwd from) (resolveSegments cwd to) of
           (up, down) \<Rightarrow> joinWith slash (replicate (length up) ''..'' @ down)))"

section \<open>Data model\<close>

text \<open>
  \<open>IOptions\<close> as the interface declares it. The two tables are read through their own
  properties only: \<open>resolveAlias\<close> as a map from specifier to path, and
  \<open>destinationFolderSimplification\<close> as its entries in the order in which
  \<open>for (key in ...)\<close> enumerates them. The names that a table written as an object
  literal inherits from \<open>Object.prototype\<close>, such as \<open>constructor\<close>, are left out;
  this holds for \<open>seenDir\<close> as well, while \<open>in_queue\<close> is created without a
  prototype.
\<close>

record IOptions =
  repoRoot :: string
  esmSource :: string
  esmDestination :: string
  entryPoints :: "string list"
  resolveAlias :: "string \<Rightarrow> string option"
  resolveSkip :: "string list"
  destinationFolderSimplification :: "(string \<times> string) list"

text \<open>An entry of \<open>ts.preProcessFile(text).importedFiles\<close>.\<close>

record FileReference =
  fileName :: string
  pos :: nat
  endPos :: nat

text \<open>A value returned by \<open>JSON.parse\<close>; the packager never looks at a number's value.\<close>

datatype json =
    JNull
  | JBool bool
  | JNumber
  | JString string
  | JArray "json list"
  | JObject "(string \<times> json) list"

text \<open>
  What the packager consumes and does not implement: the working directory of the
  process, the file tree it reads (the text of each file, and which paths are
  directories), the import scanner and the JSON parser (\<open>None\<close> when it throws a
  SyntaxError). The tree that is read is kept apart from what the run writes: every
  \<open>mkdirSync\<close> and \<open>writeFileSync\<close> is recorded in the trace of the run, and reads
  consult \<open>files\<close> and \<open>dirs\<close> only.
\<close>

record world =
  cwd :: string
  files :: "string \<Rightarrow> string option"
  dirs :: "string \<Rightarrow> bool"
  preProcessFile :: "string \<Rightarrow> FileReference list"
  JSON_parse :: "string \<Rightarrow> json option"

definition existsSync :: "world \<Rightarrow> string \<Rightarrow> bool" where
  "existsSync w p = (files w p \<noteq> None \<or> dirs w p)"

text \<open>\<open>fs.readFileSync(p).toString()\<close>; \<open>None\<close> when it throws (no such file, or a
  directory).\<close>

definition readFileSync :: "world \<Rightarrow> string \<Rightarrow> string option" where
  "readFileSync w p = files w p"

text \<open>Every exception a run can end with.\<close>

datatype error =
    CannotFindModule string string
      \<comment> \<open>\<open>Cannot find module ${module} requested by ${sourceFilePath}\<close>\<close>
  | MissingPackageJson string string
      \<comment> \<open>\<open>Missing ${modulePackagePath} in node module ${modulePath}\<close>\<close>
  | MissingModuleProperty string
      \<comment> \<open>\<open>Missing property 'module' package.json at ${modulePackagePath}\<close>\<close>
  | MissingFile string
      \<comment> \<open>\<open>Missing file ${result}\<close>\<close>
  | ReadFailed string
      \<comment> \<open>thrown by \<open>fs.readFileSync\<close> for this path\<close>
  | JsonSyntaxError
      \<comment> \<open>the SyntaxError of \<open>JSON.parse\<close>; its message names no path\<close>
  | NullPropertyAccess
      \<comment> \<open>the TypeError of \<open>null.module\<close>; its message names no path\<close>

datatype 'a completion = Throws error | Returns 'a

text \<open>What a run does to the outside, in the order in which it does it.\<close>

datatype event =
    Enqueued string
      \<comment> \<open>\<open>queue.push(filePath)\<close>\<close>
  | Dequeued string
      \<comment> \<open>\<open>queue.shift()\<close>\<close>
  | ReadSource string
      \<comment> \<open>\<open>fs.readFileSync(filePath)\<close> of the main loop\<close>
  | Exists string
      \<comment> \<open>\<open>fs.existsSync(p)\<close>\<close>
  | ReadManifest string
      \<comment> \<open>\<open>fs.readFileSync(modulePackagePath)\<close>\<close>
  | Mkdir string
      \<comment> \<open>\<open>fs.mkdirSync(dir)\<close>, whose failure is swallowed\<close>
  | Written string string string
      \<comment> \<open>\<open>write(filePath, fileContents)\<close>: source path, destination path, contents\<close>

text \<open>The variables of \<open>_packageESM\<close> that change during a run, and the trace.\<close>

record state =
  options :: IOptions
  in_queue :: "string set"
  queue :: "string list"
  seenDir :: "string set"
  trace :: "event list"

section \<open>The packager\<close>

definition ESM_SRC :: "IOptions \<Rightarrow> string" where
  "ESM_SRC opts = join [repoRoot opts, esmSource opts]"

definition ESM_DEST :: "IOptions \<Rightarrow> string" where
  "ESM_DEST opts = join [repoRoot opts, esmDestination opts]"

definition enqueue :: "string \<Rightarrow> state \<Rightarrow> state" where
  "enqueue filePath st =
     (if filePath \<in> in_queue st then st
      else st\<lparr>in_queue := insert filePath (in_queue st),
              queue := queue st @ [filePath],
              trace := trace st @ [Enqueued filePath]\<rparr>)"

definition lastSlashOf :: "string \<Rightarrow> nat option" where
  "lastSlashOf dir =
     (case lastIndexOfChar dir slash of
        None \<Rightarrow> lastIndexOfChar dir backslash
      | Some i \<Rightarrow> Some i)"

function createDirectoryRecursive :: "string \<Rightarrow> state \<Rightarrow> state" where
  "createDirectoryRecursive dir st =
     (if dir \<in> seenDir st then st
      else
        let st1 = (case lastSlashOf dir of
                     None \<Rightarrow> st
                   | Some lastSlash \<Rightarrow> createDirectoryRecursive (take lastSlash dir) st)
        in st1\<lparr>seenDir := insert dir (seenDir st1), trace := trace st1 @ [Mkdir dir]\<rparr>)"
  by pat_completeness auto
termination
proof -
  have less: "lastIndexOfChar s c = Some i \<Longrightarrow> i < length s" for s c i
    by (induction s arbitrary: i) (auto split: option.splits if_splits)
  show ?thesis
    by (relation "measure (\<lambda>(dir, st). length dir)")
      (auto simp: lastSlashOf_def split: option.splits dest: less)
qed

declare createDirectoryRecursive.simps [simp del]

text \<open>The \<open>while\<close> loop of \<open>applyDestinationFolderSimplifications\<close>; it does not return
  when the replacement brings the pattern back.\<close>

partial_function (option) simplifyWhile :: "string \<Rightarrow> string \<Rightarrow> string \<Rightarrow> string option" where
  "simplifyWhile test replacement filePath =
     (if indexOf filePath test \<noteq> None
      then simplifyWhile test replacement (replaceFirst filePath test replacement)
      else Some filePath)"

declare simplifyWhile.simps [code]

text \<open>The table is read at \<open>test\<close>, the key with its backslashes turned into slashes; a
  missing property is \<open>undefined\<close>, which \<open>replace\<close> turns into the text
  \<open>undefined\<close>.\<close>

definition simplificationAt :: "IOptions \<Rightarrow> string \<Rightarrow> string" where
  "simplificationAt opts test =
     (case map_of (destinationFolderSimplification opts) test of
        None \<Rightarrow> ''undefined''
      | Some replacement \<Rightarrow> replacement)"

fun simplifyFor :: "IOptions \<Rightarrow> string list \<Rightarrow> string \<Rightarrow> string option" where
  "simplifyFor opts [] filePath = Some filePath"
| "simplifyFor opts (key # keys) filePath =
     (let test = toForwardSlashes key
      in case simplifyWhile test (simplificationAt opts test) filePath of
           None \<Rightarrow> None
         | Some filePath' \<Rightarrow> simplifyFor opts keys filePath')"

definition applyDestinationFolderSimplifications :: "IOptions \<Rightarrow> string \<Rightarrow> string option" where
  "applyDestinationFolderSimplifications opts filePath =
     simplifyFor opts (map fst (destinationFolderSimplification opts))
       (toForwardSlashes filePath)"

fun shouldSkipLoop :: "string list \<Rightarrow> string \<Rightarrow> bool" where
  "shouldSkipLoop [] importText = False"
| "shouldSkipLoop (skip # rest) importText =
     (if startsWith importText skip then True else shouldSkipLoop rest importText)"

definition shouldSkipImport :: "IOptions \<Rightarrow> string \<Rightarrow> bool" where
  "shouldSkipImport opts importText = shouldSkipLoop (resolveSkip opts) importText"

definition computeDestinationFilePath :: "world \<Rightarrow> IOptions \<Rightarrow> string \<Rightarrow> string option" where
  "computeDestinationFilePath w opts filePath =
     (if startsWith filePath (ESM_SRC opts) then
        Some (join [ESM_DEST opts, relative (cwd w) (ESM_SRC opts) filePath])
      else
        map_option normalize
          (applyDestinationFolderSimplifications opts
             (join [ESM_DEST opts, relative (cwd w) (repoRoot opts) filePath])))"

text \<open>\<open>write\<close> of the source.\<close>

definition write_file :: "world \<Rightarrow> string \<Rightarrow> string \<Rightarrow> state \<Rightarrow> state option" where
  "write_file w filePath fileContents st =
     (case computeDestinationFilePath w (options st) filePath of
        None \<Rightarrow> None
      | Some finalFilePath \<Rightarrow>
          let st1 = createDirectoryRecursive (dirname finalFilePath) st
          in Some (st1\<lparr>trace := trace st1 @ [Written filePath finalFilePath fileContents]\<rparr>))"

text \<open>The loop of \<open>generatePaths\<close>: it compares the lengths of the two path strings,
  and does not return when \<open>dirname\<close> stops shortening the directory before that.\<close>

partial_function (option) generatePathsLoop ::
  "string \<Rightarrow> string \<Rightarrow> string \<Rightarrow> string list \<Rightarrow> string list option" where
  "generatePathsLoop root module sourceDir result =
     (if length root \<le> length sourceDir
      then generatePathsLoop root module (dirname sourceDir)
             (result @ [join [sourceDir, ''node_modules'', module]])
      else Some result)"

declare generatePathsLoop.simps [code]

definition generatePaths :: "string \<Rightarrow> string \<Rightarrow> string \<Rightarrow> string list option" where
  "generatePaths root module sourceFilePath =
     generatePathsLoop root module (dirname sourceFilePath) []"

text \<open>The loop of \<open>findNodeModule\<close> over the candidates, with the tests it makes.\<close>

fun findNodeModuleLoop ::
  "world \<Rightarrow> string \<Rightarrow> string \<Rightarrow> string list \<Rightarrow> event list \<times> string completion" where
  "findNodeModuleLoop w module sourceFilePath [] =
     ([], Throws (CannotFindModule module sourceFilePath))"
| "findNodeModuleLoop w module sourceFilePath (p # ps) =
     (if existsSync w p then ([Exists p], Returns p)
      else
        (case findNodeModuleLoop w module sourceFilePath ps of
           (evs, r) \<Rightarrow> (Exists p # evs, r)))"

definition findNodeModule ::
  "world \<Rightarrow> string \<Rightarrow> string \<Rightarrow> string \<Rightarrow> (event list \<times> string completion) option" where
  "findNodeModule w root module sourceFilePath =
     (case generatePaths root module sourceFilePath of
        None \<Rightarrow> None
      | Some modulePaths \<Rightarrow> Some (findNodeModuleLoop w module sourceFilePath modulePaths))"

text \<open>\<open>modulePackage.module\<close> with its \<open>typeof\<close> test: reading a property of \<open>null\<close>
  throws, an object has the property it was parsed with (the last one of a repeated key),
  and every other value has none.\<close>

definition moduleProperty :: "json \<Rightarrow> json option" where
  "moduleProperty j =
     (case j of JObject members \<Rightarrow> map_of (rev members) ''module'' | _ \<Rightarrow> None)"

text \<open>The body of \<open>findNodeModuleImport\<close> once \<open>findNodeModule\<close> has returned
  \<open>modulePath\<close>.\<close>

definition readModuleEntry :: "world \<Rightarrow> string \<Rightarrow> event list \<times> string completion" where
  "readModuleEntry w modulePath =
     (let modulePackagePath = join [modulePath, ''package.json'']
      in if \<not> existsSync w modulePackagePath then
           ([Exists modulePackagePath], Throws (MissingPackageJson modulePackagePath modulePath))
         else
           (case readFileSync w modulePackagePath of
              None \<Rightarrow>
                ([Exists modulePackagePath, ReadManifest modulePackagePath],
                 Throws (ReadFailed modulePackagePath))
            | Some text \<Rightarrow>
                (case JSON_parse w text of
                   None \<Rightarrow>
                     ([Exists modulePackagePath, ReadManifest modulePackagePath],
                      Throws JsonSyntaxError)
                 | Some JNull \<Rightarrow>
                     ([Exists modulePackagePath, ReadManifest modulePackagePath],
                      Throws NullPropertyAccess)
                 | Some modulePackage \<Rightarrow>
                     (case moduleProperty modulePackage of
                        Some (JString entry) \<Rightarrow>
                          (let result = join [modulePath, entry]
                           in ([Exists modulePackagePath, ReadManifest modulePackagePath,
                                Exists result],
                               if \<not> existsSync w result then Throws (MissingFile result)
                               else Returns result))
                      | _ \<Rightarrow>
                          ([Exists modulePackagePath, ReadManifest modulePackagePath],
                           Throws (MissingModuleProperty modulePackagePath))))))"

definition findNodeModuleImport ::
  "world \<Rightarrow> string \<Rightarrow> string \<Rightarrow> string \<Rightarrow> (event list \<times> string completion) option" where
  "findNodeModuleImport w root module sourceFilePath =
     (case findNodeModule w root module sourceFilePath of
        None \<Rightarrow> None
      | Some (evs, Throws e) \<Rightarrow> Some (evs, Throws e)
      | Some (evs, Returns modulePath) \<Rightarrow>
          (case readModuleEntry w modulePath of (evs', r) \<Rightarrow> Some (evs @ evs', r)))"

text \<open>Lines 143 to 148: the alias table is tested for a truthy value, so an empty alias
  counts as none.\<close>

definition resolveBare ::
  "world \<Rightarrow> IOptions \<Rightarrow> string \<Rightarrow> string \<Rightarrow> (event list \<times> string completion) option" where
  "resolveBare w opts importText filePath =
     (case resolveAlias opts importText of
        Some alias \<Rightarrow>
          if alias \<noteq> [] then Some ([], Returns alias)
          else findNodeModuleImport w (repoRoot opts) importText filePath
      | None \<Rightarrow> findNodeModuleImport w (repoRoot opts) importText filePath)"

text \<open>Lines 150 to 158: the specifier that replaces a bare one.\<close>

definition relativeSpecifier :: "world \<Rightarrow> string \<Rightarrow> string \<Rightarrow> string" where
  "relativeSpecifier w myDestinationPath importDestinationPath =
     (let relativePath = relative (cwd w) (dirname myDestinationPath) importDestinationPath;
          relativePath = (if \<not> isRelativeSpecifier relativePath then ''./'' @ relativePath
                          else relativePath)
      in stripJs (toForwardSlashes relativePath))"

text \<open>Lines 160 to 164.\<close>

definition splice :: "string \<Rightarrow> nat \<Rightarrow> nat \<Rightarrow> string \<Rightarrow> string" where
  "splice fileContents p e relativePath =
     take (p + 1) fileContents @ relativePath @ drop (e + 1) fileContents"

text \<open>One turn of the \<open>for\<close> loop over \<open>info.importedFiles\<close>.\<close>

definition processImport ::
  "world \<Rightarrow> string \<Rightarrow> FileReference \<Rightarrow> state \<times> string
     \<Rightarrow> (state \<times> string completion) option" where
  "processImport w filePath ref sc =
     (case sc of (st, fileContents) \<Rightarrow>
        let importText = fileName ref
        in if shouldSkipImport (options st) importText then Some (st, Returns fileContents)
           else if isRelativeSpecifier importText then
             Some (enqueue (join [dirname filePath, importText] @ ''.js'') st,
                   Returns fileContents)
           else
             (case resolveBare w (options st) importText filePath of
                None \<Rightarrow> None
              | Some (evs, Throws e) \<Rightarrow> Some (st\<lparr>trace := trace st @ evs\<rparr>, Throws e)
              | Some (evs, Returns importedFilename) \<Rightarrow>
                  (case computeDestinationFilePath w (options st) filePath of
                     None \<Rightarrow> None
                   | Some myDestinationPath \<Rightarrow>
                       (case computeDestinationFilePath w (options st) importedFilename of
                          None \<Rightarrow> None
                        | Some importDestinationPath \<Rightarrow>
                            Some (enqueue importedFilename (st\<lparr>trace := trace st @ evs\<rparr>),
                                  Returns (splice fileContents (pos ref) (endPos ref)
                                    (relativeSpecifier w myDestinationPath
                                       importDestinationPath)))))))"

text \<open>\<open>for (let i = info.importedFiles.length - 1; i >= 0; i--)\<close>: \<open>importLoop\<close> at
  \<open>Suc i\<close> handles the reference at index \<open>i\<close> and goes on downwards.\<close>

fun importLoop ::
  "world \<Rightarrow> string \<Rightarrow> FileReference list \<Rightarrow> nat \<Rightarrow> state \<times> string
     \<Rightarrow> (state \<times> string completion) option" where
  "importLoop w filePath importedFiles 0 sc = Some (fst sc, Returns (snd sc))"
| "importLoop w filePath importedFiles (Suc i) sc =
     (case processImport w filePath (importedFiles ! i) sc of
        None \<Rightarrow> None
      | Some (st, Throws e) \<Rightarrow> Some (st, Throws e)
      | Some (st, Returns fileContents) \<Rightarrow>
          importLoop w filePath importedFiles i (st, fileContents))"

text \<open>The body of the \<open>while\<close> loop, after \<open>queue.shift()\<close>.\<close>

definition processFile :: "world \<Rightarrow> string \<Rightarrow> state \<Rightarrow> (state \<times> unit completion) option" where
  "processFile w filePath st =
     (let st1 = st\<lparr>trace := trace st @ [ReadSource filePath]\<rparr>
      in case readFileSync w filePath of
           None \<Rightarrow> Some (st1, Throws (ReadFailed filePath))
         | Some fileContents \<Rightarrow>
             (let importedFiles = preProcessFile w fileContents
              in case importLoop w filePath importedFiles (length importedFiles)
                        (st1, fileContents) of
                   None \<Rightarrow> None
                 | Some (st2, Throws e) \<Rightarrow> Some (st2, Throws e)
                 | Some (st2, Returns fileContents') \<Rightarrow>
                     (case write_file w filePath fileContents' st2 of
                        None \<Rightarrow> None
                      | Some st3 \<Rightarrow> Some (st3, Returns ()))))"

text \<open>\<open>while (queue.length > 0)\<close>. \<open>None\<close> is a run that does not return.\<close>

partial_function (option) mainLoop :: "world \<Rightarrow> state \<Rightarrow> (state \<times> unit completion) option" where
  "mainLoop w st =
     (case queue st of
        [] \<Rightarrow> Some (st, Returns ())
      | filePath # rest \<Rightarrow>
          (case processFile w filePath
                  (st\<lparr>queue := rest, trace := trace st @ [Dequeued filePath]\<rparr>) of
             None \<Rightarrow> None
           | Some (st', Throws e) \<Rightarrow> Some (st', Throws e)
           | Some (st', Returns u) \<Rightarrow> mainLoop w st'))"

declare mainLoop.simps [code]

text \<open>\<open>_packageESM\<close>: the first assignment changes the caller's \<open>options\<close>, which the
  state carries from there on.\<close>

definition initialState :: "IOptions \<Rightarrow> state" where
  "initialState opts =
     (let opts' = opts\<lparr>repoRoot := stripTrailingSeparator (normalize (repoRoot opts))\<rparr>
      in \<lparr>options = opts', in_queue = {}, queue = [], seenDir = {repoRoot opts'},
          trace = []\<rparr>)"

definition enqueueEntryPoints :: "state \<Rightarrow> state" where
  "enqueueEntryPoints st =
     foldl (\<lambda>s filePath. enqueue (join [ESM_SRC (options s), filePath]) s) st
       (entryPoints (options st))"

definition packageESM :: "world \<Rightarrow> IOptions \<Rightarrow> (state \<times> unit completion) option" where
  "packageESM w opts = mainLoop w (enqueueEntryPoints (initialState opts))"

section \<open>Notions of the specification\<close>

text \<open>Lines 135 to 148 as one function: the file an import that is not skipped stands
  for, with the file system tests made to find it.\<close>

definition resolveImport ::
  "world \<Rightarrow> IOptions \<Rightarrow> string \<Rightarrow> string \<Rightarrow> (event list \<times> string completion) option" where
  "resolveImport w opts filePath importText =
     (if isRelativeSpecifier importText
      then Some ([], Returns (join [dirname filePath, importText] @ ''.js''))
      else resolveBare w opts importText filePath)"

text \<open>Lines 150 to 158 for an importing file and the file it imports.\<close>

definition rewrittenSpecifier :: "world \<Rightarrow> IOptions \<Rightarrow> string \<Rightarrow> string \<Rightarrow> string option" where
  "rewrittenSpecifier w opts filePath importedFilename =
     (case computeDestinationFilePath w opts filePath of
        None \<Rightarrow> None
      | Some myDestinationPath \<Rightarrow>
          (case computeDestinationFilePath w opts importedFilename of
             None \<Rightarrow> None
           | Some importDestinationPath \<Rightarrow>
               Some (relativeSpecifier w myDestinationPath importDestinationPath)))"

text \<open>The paths of a trace, by kind of event.\<close>

fun enqueuedPaths :: "event list \<Rightarrow> string list" where
  "enqueuedPaths [] = []"
| "enqueuedPaths (Enqueued p # es) = p # enqueuedPaths es"
| "enqueuedPaths (e # es) = enqueuedPaths es"

fun dequeuedPaths :: "event list \<Rightarrow> string list" where
  "dequeuedPaths [] = []"
| "dequeuedPaths (Dequeued p # es) = p # dequeuedPaths es"
| "dequeuedPaths (e # es) = dequeuedPaths es"

fun readPaths :: "event list \<Rightarrow> string list" where
  "readPaths [] = []"
| "readPaths (ReadSource p # es) = p # readPaths es"
| "readPaths (e # es) = readPaths es"

fun writtenSources :: "event list \<Rightarrow> string list" where
  "writtenSources [] = []"
| "writtenSources (Written p d c # es) = p # writtenSources es"
| "writtenSources (e # es) = writtenSources es"

text \<open>The events of a module resolution.\<close>

fun isProbe :: "event \<Rightarrow> bool" where
  "isProbe (Exists p) = True"
| "isProbe (ReadManifest p) = True"
| "isProbe e = False"

text \<open>The directories that the walk of \<open>generatePaths\<close> visits, with a bound on their
  number: \<open>sourceDir\<close>, its parent and so on while the path is at least as long as the
  root's.\<close>

fun walkUp :: "nat \<Rightarrow> string \<Rightarrow> string \<Rightarrow> string list" where
  "walkUp 0 root sourceDir = []"
| "walkUp (Suc n) root sourceDir =
     (if length root \<le> length sourceDir
      then sourceDir # walkUp n root (dirname sourceDir) else [])"

definition candidate :: "string \<Rightarrow> string \<Rightarrow> string" where
  "candidate module dir = join [dir, ''node_modules'', module]"

text \<open>A directory below \<open>root\<close>: the root followed by the names on the way down.\<close>

definition below :: "string \<Rightarrow> string list \<Rightarrow> string" where
  "below root names = root @ concat (map (\<lambda>s. slash # s) names)"

definition isName :: "string \<Rightarrow> bool" where
  "isName s = (s \<noteq> [] \<and> slash \<notin> set s)"

text \<open>The bookkeeping of the queue, read off the trace: the paths pushed are distinct and
  are the keys of \<open>in_queue\<close>; those shifted so far, followed by the queue, are the paths
  pushed; and each shifted path has been read.\<close>

definition queueInv :: "state \<Rightarrow> bool" where
  "queueInv st \<longleftrightarrow>
     distinct (enqueuedPaths (trace st)) \<and>
     set (enqueuedPaths (trace st)) = in_queue st \<and>
     enqueuedPaths (trace st) = dequeuedPaths (trace st) @ queue st \<and>
     readPaths (trace st) = dequeuedPaths (trace st)"

text \<open>Between two turns of the main loop every shifted file has been written; within
  the turn for \<open>f\<close>, every one but \<open>f\<close>.\<close>

definition idle :: "state \<Rightarrow> bool" where
  "idle st \<longleftrightarrow> writtenSources (trace st) = dequeuedPaths (trace st)"

definition busy :: "string \<Rightarrow> state \<Rightarrow> bool" where
  "busy f st \<longleftrightarrow> dequeuedPaths (trace st) = writtenSources (trace st) @ [f]"





fun manifestPaths :: "event list \<Rightarrow> string list" where
  "manifestPaths [] = []"
| "manifestPaths (ReadManifest p # es) = p # manifestPaths es"
| "manifestPaths (e # es) = manifestPaths es"










fun writes :: "event list \<Rightarrow> (string \<times> string \<times> string) list" where
  "writes [] = []"
| "writes (Written p d c # es) = (p, d, c) # writes es"
| "writes (e # es) = writes es"


section \<open>An example repository\<close>

text \<open>
  \<open>/repo/src/a.js\<close> imports \<open>./b\<close>, the package \<open>dep\<close> and the skipped \<open>vscode\<close>;
  \<open>/repo/src/b.js\<close> imports \<open>./a\<close> back; \<open>dep\<close> is installed under
  \<open>/repo/node_modules\<close> with the entry \<open>esm/index.js\<close>. The scanner and the JSON parser
  are given on the texts of this repository only.
\<close>

definition quoted :: "string \<Rightarrow> string" where
  "quoted s = CHR 0x22 # s @ [CHR 0x22]"

definition demoA :: string where
  "demoA = ''import '' @ quoted ''./b'' @ ''; import '' @ quoted ''dep''
             @ ''; import '' @ quoted ''vscode'' @ '';''"

definition demoB :: string where
  "demoB = ''import '' @ quoted ''./a'' @ '';''"

definition demoManifest :: string where
  "demoManifest = ''{'' @ quoted ''module'' @ '':'' @ quoted ''esm/index.js'' @ ''}''"

definition demoScanner :: "string \<Rightarrow> FileReference list" where
  "demoScanner text =
     (if text = demoA then
        [\<lparr>fileName = ''./b'', pos = 7, endPos = 10\<rparr>,
         \<lparr>fileName = ''dep'', pos = 21, endPos = 24\<rparr>,
         \<lparr>fileName = ''vscode'', pos = 35, endPos = 41\<rparr>]
      else if text = demoB then [\<lparr>fileName = ''./a'', pos = 7, endPos = 10\<rparr>]
      else [])"

definition demoParser :: "string \<Rightarrow> json option" where
  "demoParser text =
     (if text = demoManifest then Some (JObject [(''module'', JString ''esm/index.js'')])
      else if text = ''null'' then Some JNull
      else None)"

definition demoWorld :: world where
  "demoWorld =
     \<lparr>cwd = ''/repo'',
      files = map_of
        [(''/repo/src/a.js'', demoA),
         (''/repo/src/b.js'', demoB),
         (''/repo/node_modules/dep/package.json'', demoManifest),
         (''/repo/node_modules/dep/esm/index.js'', ''export {};'')],
      dirs = (\<lambda>p. p \<in> set [''/'', ''/repo'', ''/repo/src'', ''/repo/node_modules'',
                ''/repo/node_modules/dep'', ''/repo/node_modules/dep/esm'']),
      preProcessFile = demoScanner,
      JSON_parse = demoParser\<rparr>"

definition demoOptions :: IOptions where
  "demoOptions =
     \<lparr>repoRoot = ''/repo/'',
      esmSource = ''src'',
      esmDestination = ''out'',
      entryPoints = [''a.js''],
      resolveAlias = Map.empty,
      resolveSkip = [''vscode''],
      destinationFolderSimplification = [(''node_modules/dep/esm'', ''dep'')]\<rparr>"


definition backslashOptions :: IOptions where
  "backslashOptions =
     demoOptions\<lparr>repoRoot := ''/repo'',
       destinationFolderSimplification :=
         [(''node_modules'' @ [backslash] @ ''dep'' @ [backslash] @ ''esm'', ''dep'')]\<rparr>"







section \<open>Lemmas\<close>

subsection \<open>Projections of a trace\<close>

lemma enqueuedPaths_append [simp]:
  "enqueuedPaths (xs @ ys) = enqueuedPaths xs @ enqueuedPaths ys"
  by (induction xs rule: enqueuedPaths.induct) simp_all

lemma dequeuedPaths_append [simp]:
  "dequeuedPaths (xs @ ys) = dequeuedPaths xs @ dequeuedPaths ys"
  by (induction xs rule: dequeuedPaths.induct) simp_all

lemma readPaths_append [simp]:
  "readPaths (xs @ ys) = readPaths xs @ readPaths ys"
  by (induction xs rule: readPaths.induct) simp_all

lemma writtenSources_append [simp]:
  "writtenSources (xs @ ys) = writtenSources xs @ writtenSources ys"
  by (induction xs rule: writtenSources.induct) simp_all

lemma probes_project:
  assumes "\<forall>e \<in> set evs. isProbe e"
  shows "enqueuedPaths evs = []" "dequeuedPaths evs = []" "readPaths evs = []"
    "writtenSources evs = []"
  using assms
proof (induction evs)
  case Nil
  {
    case 1 show ?case by simp
  next
    case 2 show ?case by simp
  next
    case 3 show ?case by simp
  next
    case 4 show ?case by simp
  }
next
  case (Cons e evs)
  {
    case 1 then show ?case using Cons.IH(1) by (cases e) simp_all
  next
    case 2 then show ?case using Cons.IH(2) by (cases e) simp_all
  next
    case 3 then show ?case using Cons.IH(3) by (cases e) simp_all
  next
    case 4 then show ?case using Cons.IH(4) by (cases e) simp_all
  }
qed

lemma mkdirs_project [simp]:
  "enqueuedPaths (map Mkdir ds) = []" "dequeuedPaths (map Mkdir ds) = []"
  "readPaths (map Mkdir ds) = []" "writtenSources (map Mkdir ds) = []"
  by (induction ds) simp_all

subsection \<open>The effect of each function on the state\<close>

lemma createDirectoryRecursive_effect:
  "\<exists>S ds. createDirectoryRecursive dir st
     = st\<lparr>seenDir := S, trace := trace st @ map Mkdir ds\<rparr>"
proof (induction dir st rule: createDirectoryRecursive.induct)
  case (1 dir st)
  show ?case
  proof (cases "dir \<in> seenDir st")
    case True
    have "createDirectoryRecursive dir st = st"
      using True by (subst createDirectoryRecursive.simps) simp
    then have "createDirectoryRecursive dir st
        = st\<lparr>seenDir := seenDir st, trace := trace st @ map Mkdir []\<rparr>"
      by simp
    then show ?thesis by blast
  next
    case False
    show ?thesis
    proof (cases "lastSlashOf dir")
      case None
      have "createDirectoryRecursive dir st
          = st\<lparr>seenDir := insert dir (seenDir st), trace := trace st @ map Mkdir [dir]\<rparr>"
        using False None by (subst createDirectoryRecursive.simps) simp
      then show ?thesis by blast
    next
      case (Some i)
      from 1 [OF False Some] obtain S ds where
        r: "createDirectoryRecursive (take i dir) st
              = st\<lparr>seenDir := S, trace := trace st @ map Mkdir ds\<rparr>"
        by blast
      have "createDirectoryRecursive dir st
          = st\<lparr>seenDir := insert dir S, trace := trace st @ map Mkdir (ds @ [dir])\<rparr>"
        using False Some r by (subst createDirectoryRecursive.simps) simp
      then show ?thesis by blast
    qed
  qed
qed

lemma write_file_effect:
  assumes "write_file w filePath fileContents st = Some st'"
  shows "\<exists>S ds finalFilePath.
           computeDestinationFilePath w (options st) filePath = Some finalFilePath \<and>
           st' = st\<lparr>seenDir := S,
                    trace := trace st @ map Mkdir ds
                      @ [Written filePath finalFilePath fileContents]\<rparr>"
proof -
  from assms obtain finalFilePath where
    d: "computeDestinationFilePath w (options st) filePath = Some finalFilePath"
    and st': "st' = (let st1 = createDirectoryRecursive (dirname finalFilePath) st
                     in st1\<lparr>trace := trace st1 @ [Written filePath finalFilePath fileContents]\<rparr>)"
    by (auto simp: write_file_def Let_def split: option.splits)
  obtain S ds where
    "createDirectoryRecursive (dirname finalFilePath) st
       = st\<lparr>seenDir := S, trace := trace st @ map Mkdir ds\<rparr>"
    using createDirectoryRecursive_effect by blast
  with st' have "st' = st\<lparr>seenDir := S,
      trace := trace st @ map Mkdir ds @ [Written filePath finalFilePath fileContents]\<rparr>"
    by simp
  with d show ?thesis by blast
qed

lemma findNodeModuleLoop_probes:
  "findNodeModuleLoop w m f ps = (evs, r) \<Longrightarrow> \<forall>e \<in> set evs. isProbe e"
  by (induction ps arbitrary: evs r) (auto split: if_splits prod.splits)

lemma readModuleEntry_probes:
  "readModuleEntry w modulePath = (evs, r) \<Longrightarrow> \<forall>e \<in> set evs. isProbe e"
  by (auto simp: readModuleEntry_def Let_def
      split: if_splits option.splits json.splits)

lemma findNodeModuleImport_probes:
  assumes "findNodeModuleImport w root m f = Some (evs, r)"
  shows "\<forall>e \<in> set evs. isProbe e"
  using assms
  by (auto simp: findNodeModuleImport_def findNodeModule_def
      split: option.splits prod.splits completion.splits
      dest!: findNodeModuleLoop_probes readModuleEntry_probes)

lemma resolveImport_probes:
  assumes "resolveImport w opts f t = Some (evs, r)"
  shows "\<forall>e \<in> set evs. isProbe e"
  using assms findNodeModuleImport_probes
  by (auto simp: resolveImport_def resolveBare_def split: if_splits option.splits)

text \<open>One turn of the import loop, by cases.\<close>

lemma processImport_skip:
  "shouldSkipImport (options st) (fileName ref) \<Longrightarrow>
   processImport w f ref (st, c) = Some (st, Returns c)"
  by (simp add: processImport_def)

lemma processImport_Throws:
  assumes "processImport w f ref (st, c) = Some (st', Throws e)"
  shows "\<not> shouldSkipImport (options st) (fileName ref) \<and>
         (\<exists>evs. resolveImport w (options st) f (fileName ref) = Some (evs, Throws e) \<and>
                st' = st\<lparr>trace := trace st @ evs\<rparr>)"
  using assms
  by (auto simp: processImport_def resolveImport_def Let_def
      split: if_splits option.splits prod.splits completion.splits)

lemma processImport_Returns:
  assumes "processImport w f ref (st, c) = Some (st', Returns c')"
    and "\<not> shouldSkipImport (options st) (fileName ref)"
  shows "\<exists>evs g. resolveImport w (options st) f (fileName ref) = Some (evs, Returns g) \<and>
           st' = enqueue g (st\<lparr>trace := trace st @ evs\<rparr>) \<and>
           (if isRelativeSpecifier (fileName ref) then c' = c
            else \<exists>t. rewrittenSpecifier w (options st) f g = Some t \<and>
                     c' = splice c (pos ref) (endPos ref) t)"
proof (cases "isRelativeSpecifier (fileName ref)")
  case True
  with assms show ?thesis
    by (auto simp: processImport_def resolveImport_def Let_def)
next
  case False
  from assms False obtain evs g md gd where
    r: "resolveBare w (options st) (fileName ref) f = Some (evs, Returns g)"
    and md: "computeDestinationFilePath w (options st) f = Some md"
    and gd: "computeDestinationFilePath w (options st) g = Some gd"
    and st': "st' = enqueue g (st\<lparr>trace := trace st @ evs\<rparr>)"
    and c': "c' = splice c (pos ref) (endPos ref) (relativeSpecifier w md gd)"
    by (auto simp: processImport_def Let_def
        split: option.splits prod.splits completion.splits)
  have "rewrittenSpecifier w (options st) f g = Some (relativeSpecifier w md gd)"
    by (simp add: rewrittenSpecifier_def md gd)
  with r st' c' False show ?thesis
    by (simp add: resolveImport_def)
qed


subsection \<open>Rules for the two loops\<close>

lemma importLoop_rule:
  assumes "importLoop w f refs k (st, c) = Some (st', r)"
    and "I k st c"
    and step: "\<And>i s d s' d'. i < k \<Longrightarrow> I (Suc i) s d \<Longrightarrow>
            processImport w f (refs ! i) (s, d) = Some (s', Returns d') \<Longrightarrow> I i s' d'"
    and fail: "\<And>i s d s' e. i < k \<Longrightarrow> I (Suc i) s d \<Longrightarrow>
            processImport w f (refs ! i) (s, d) = Some (s', Throws e) \<Longrightarrow> T s'"
  shows "case r of Returns c' \<Rightarrow> I 0 st' c' | Throws e \<Rightarrow> T st'"
  using assms
proof (induction k arbitrary: st c)
  case 0
  then show ?case by auto
next
  case (Suc k)
  from Suc.prems(1) obtain s1 r1 where
    p: "processImport w f (refs ! k) (st, c) = Some (s1, r1)"
    by (auto split: option.splits)
  show ?case
  proof (cases r1)
    case (Throws e)
    with p Suc.prems(1) have "st' = s1" "r = Throws e" by auto
    moreover have "T s1" using Suc.prems(4) [of k st c s1 e] Suc.prems(2) p Throws by simp
    ultimately show ?thesis by simp
  next
    case (Returns d)
    with p Suc.prems(1) have rest: "importLoop w f refs k (s1, d) = Some (st', r)" by simp
    have "I k s1 d" using Suc.prems(3) [of k st c s1 d] Suc.prems(2) p Returns by simp
    with rest show ?thesis
      using Suc.IH [of s1 d] Suc.prems(3,4) by (meson less_Suc_eq)
  qed
qed

lemma mainLoop_rule:
  assumes run: "mainLoop w st = Some (st', r)"
    and I: "I st"
    and step: "\<And>s f rest s' r'. I s \<Longrightarrow> queue s = f # rest \<Longrightarrow>
            processFile w f (s\<lparr>queue := rest, trace := trace s @ [Dequeued f]\<rparr>) = Some (s', r')
            \<Longrightarrow> (case r' of Returns u \<Rightarrow> I s' | Throws e \<Rightarrow> T s')"
  shows "case r of Returns u \<Rightarrow> I st' \<and> queue st' = [] | Throws e \<Rightarrow> T st'"
proof -
  define P where "P = (\<lambda>(w0 :: world) s (y :: state \<times> unit completion). w0 = w \<longrightarrow> I s \<longrightarrow>
      (case snd y of Returns u \<Rightarrow> I (fst y) \<and> queue (fst y) = [] | Throws e \<Rightarrow> T (fst y)))"
  have "P w st (st', r)"
  proof (rule mainLoop.raw_induct [where P = P, OF _ run])
    fix loop :: "world \<Rightarrow> state \<Rightarrow> (state \<times> unit completion) option"
    fix w0 s y
    assume IH: "\<And>w1 s1 y1. loop w1 s1 = Some y1 \<Longrightarrow> P w1 s1 y1"
    assume eq: "(case queue s of
          [] \<Rightarrow> Some (s, Returns ())
        | filePath # rest \<Rightarrow>
            (case processFile w0 filePath
                    (s\<lparr>queue := rest, trace := trace s @ [Dequeued filePath]\<rparr>) of
               None \<Rightarrow> None
             | Some (st', Throws e) \<Rightarrow> Some (st', Throws e)
             | Some (st', Returns u) \<Rightarrow> loop w0 st')) = Some y"
    show "P w0 s y"
      unfolding P_def
    proof (intro impI)
      assume w0: "w0 = w" and Is: "I s"
      show "case snd y of Returns u \<Rightarrow> I (fst y) \<and> queue (fst y) = [] | Throws e \<Rightarrow> T (fst y)"
      proof (cases "queue s")
        case Nil
        with eq Is show ?thesis by auto
      next
        case (Cons f rest)
        with eq obtain s1 r1 where
          p: "processFile w0 f (s\<lparr>queue := rest, trace := trace s @ [Dequeued f]\<rparr>)
                = Some (s1, r1)"
          by (auto split: option.splits)
        have q: "case r1 of Returns u \<Rightarrow> I s1 | Throws e \<Rightarrow> T s1"
          using step [OF Is Cons] p w0 by simp
        show ?thesis
        proof (cases r1)
          case (Throws e)
          with p eq Cons have "y = (s1, Throws e)" by simp
          with q Throws show ?thesis by simp
        next
          case (Returns u)
          with p eq Cons have "loop w0 s1 = Some y" by simp
          from IH [OF this] w0 q Returns show ?thesis by (simp add: P_def)
        qed
      qed
    qed
  qed
  with I show ?thesis by (cases r) (simp_all add: P_def)
qed

subsection \<open>The options are set once\<close>

lemma processImport_options:
  assumes "processImport w f ref (st, c) = Some (st', r)"
  shows "options st' = options st"
proof (cases r)
  case (Throws e)
  with assms processImport_Throws show ?thesis by fastforce
next
  case (Returns c')
  show ?thesis
  proof (cases "shouldSkipImport (options st) (fileName ref)")
    case True
    with assms show ?thesis by (simp add: processImport_skip)
  next
    case False
    from processImport_Returns [OF assms [unfolded Returns] False] show ?thesis
      by (auto simp: enqueue_def)
  qed
qed

lemma importLoop_options:
  assumes "importLoop w f refs k (st, c) = Some (st', r)"
  shows "options st' = options st"
proof -
  have "case r of Returns c' \<Rightarrow> options st' = options st | Throws e \<Rightarrow> options st' = options st"
    by (rule importLoop_rule [OF assms, where I = "\<lambda>i s d. options s = options st"
          and T = "\<lambda>s. options s = options st"])
      (auto dest: processImport_options)
  then show ?thesis by (cases r) simp_all
qed

lemma processFile_options:
  assumes "processFile w f st = Some (st', r)"
  shows "options st' = options st"
  using assms
  by (auto simp: processFile_def Let_def split: option.splits prod.splits completion.splits
      dest!: importLoop_options write_file_effect)

lemma mainLoop_options:
  assumes "mainLoop w st = Some (st', r)"
  shows "options st' = options st"
proof -
  have "case r of Returns u \<Rightarrow> options st' = options st \<and> queue st' = []
        | Throws e \<Rightarrow> options st' = options st"
    by (rule mainLoop_rule [OF assms, where I = "\<lambda>s. options s = options st"
          and T = "\<lambda>s. options s = options st"])
      (auto dest!: processFile_options split: completion.splits)
  then show ?thesis by (cases r) simp_all
qed

lemma options_enqueue [simp]: "options (enqueue p st) = options st"
  by (simp add: enqueue_def)

lemma options_enqueueEntryPoints [simp]: "options (enqueueEntryPoints st) = options st"
proof -
  have "options (foldl (\<lambda>s filePath. enqueue (join [ESM_SRC (options s), filePath]) s) s0 es)
          = options s0" for s0 es
    by (induction es arbitrary: s0) simp_all
  then show ?thesis by (simp add: enqueueEntryPoints_def)
qed

subsection \<open>dirname\<close>

lemma dirnameScan_bound:
  "dirnameScan p i b = Some e \<Longrightarrow> 1 \<le> e \<and> (if b then e < i else e \<le> i)"
proof (induction p i b arbitrary: e rule: dirnameScan.induct)
  case (1 p matchedSlash)
  then show ?case by simp
next
  case (2 p i matchedSlash)
  then show ?case by (fastforce split: if_splits)
qed

lemma dirname_nonempty: "dirname p \<noteq> []"
proof (cases "dirnameScan p (length p - 1) True")
  case None
  then show ?thesis by (simp add: dirname_def)
next
  case (Some e)
  with dirnameScan_bound [OF Some] show ?thesis
    by (auto simp: dirname_def)
qed

lemma dirname_shorter:
  assumes "2 \<le> length p"
  shows "length (dirname p) < length p"
proof (cases "dirnameScan p (length p - 1) True")
  case None
  with assms show ?thesis by (auto simp: dirname_def)
next
  case (Some e)
  from dirnameScan_bound [OF Some] have "1 \<le> e" "e < length p - 1" by simp_all
  with Some assms show ?thesis by (auto simp: dirname_def)
qed

lemma dirnameScan_at_slash:
  assumes "p \<noteq> []"
  shows "dirnameScan (p @ slash # s) (length p) False = Some (length p)"
proof -
  from assms obtain n where n: "length p = Suc n" by (cases p) auto
  have "(p @ slash # s) ! Suc n = slash" using n by (metis nth_append_length)
  then show ?thesis by (simp add: n)
qed

lemma dirnameScan_over_name:
  assumes "p \<noteq> []" "slash \<notin> set s" "k < length s"
  shows "dirnameScan (p @ slash # s) (length p + Suc k) b = Some (length p)"
  using assms(3)
proof (induction k arbitrary: b)
  case 0
  have "(p @ slash # s) ! Suc (length p) = s ! 0" by (simp add: nth_append)
  moreover have "s ! 0 \<noteq> slash" using assms(2) 0 by (metis nth_mem)
  ultimately show ?case using dirnameScan_at_slash [OF assms(1)] by simp
next
  case (Suc k)
  have "(p @ slash # s) ! Suc (length p + Suc k) = s ! Suc k" by (simp add: nth_append)
  moreover have "s ! Suc k \<noteq> slash" using assms(2) Suc.prems by (metis nth_mem)
  ultimately show ?case using Suc.IH [of False] Suc.prems by simp
qed

lemma dirname_child:
  assumes "isName s" "p \<noteq> []" "p \<noteq> ''/''"
  shows "dirname (p @ slash # s) = p"
proof -
  from assms(1) obtain k where k: "length s = Suc k" by (cases s) (auto simp: isName_def)
  have "dirnameScan (p @ slash # s) (length (p @ slash # s) - 1) True = Some (length p)"
    using dirnameScan_over_name [OF assms(2), of s k True] assms(1) k
    by (simp add: isName_def)
  moreover have "\<not> (isAbsolute (p @ slash # s) \<and> length p = 1)"
    using assms(2,3) by (cases p) (auto simp: isAbsolute_def slash_def)
  ultimately show ?thesis by (auto simp: dirname_def)
qed

subsection \<open>generatePaths\<close>

lemma generatePathsLoop_walk:
  assumes "2 \<le> length root" "length d \<le> n"
  shows "generatePathsLoop root m d acc = Some (acc @ map (candidate m) (walkUp n root d))"
  using assms(2)
proof (induction n arbitrary: d acc)
  case 0
  with assms(1) have "\<not> length root \<le> length d" by auto
  then show ?case by (subst generatePathsLoop.simps) simp
next
  case (Suc n)
  show ?case
  proof (cases "length root \<le> length d")
    case False
    then show ?thesis by (subst generatePathsLoop.simps) simp
  next
    case True
    with assms(1) have "length (dirname d) < length d" by (intro dirname_shorter) simp
    with Suc.prems have "length (dirname d) \<le> n" by simp
    from Suc.IH [OF this] True show ?thesis
      by (subst generatePathsLoop.simps) (simp add: candidate_def)
  qed
qed

lemma generatePathsLoop_diverges:
  assumes "length root \<le> 1" "d \<noteq> []"
  shows "generatePathsLoop root m d acc = None"
proof (rule ccontr)
  assume "generatePathsLoop root m d acc \<noteq> None"
  then obtain r where run: "generatePathsLoop root m d acc = Some r" by auto
  define P where "P = (\<lambda>(root :: string) (m :: string) (d :: string) (acc :: string list) (r :: string list).
      length root \<le> 1 \<longrightarrow> d = [])"
  have "P root m d acc r"
  proof (rule generatePathsLoop.raw_induct [where P = P, OF _ run])
    fix loop :: "string \<Rightarrow> string \<Rightarrow> string \<Rightarrow> string list \<Rightarrow> string list option"
    fix root m d acc r
    assume IH: "\<And>root m d acc r. loop root m d acc = Some r \<Longrightarrow> P root m d acc r"
    assume eq: "(if length root \<le> length d
          then loop root m (dirname d) (acc @ [join [d, ''node_modules'', m]])
          else Some acc) = Some r"
    show "P root m d acc r"
      unfolding P_def
    proof (intro impI, rule ccontr)
      assume short: "length root \<le> 1" and "d \<noteq> []"
      then have "length root \<le> length d" by (cases d) auto
      with eq have "loop root m (dirname d) (acc @ [join [d, ''node_modules'', m]]) = Some r"
        by simp
      from IH [OF this] short have "dirname d = []" by (simp add: P_def)
      with dirname_nonempty show False by blast
    qed
  qed
  with assms show False by (simp add: P_def)
qed

lemma walkUp_below:
  assumes "2 \<le> length root" "\<forall>s \<in> set names. isName s" "length names < n"
  shows "walkUp n root (below root names)
           = map (\<lambda>k. below root (take k names)) (rev [0..<Suc (length names)])"
  using assms(2,3)
proof (induction names arbitrary: n rule: rev_induct)
  case Nil
  then obtain n' where n: "n = Suc n'" by (cases n) auto
  have "length (dirname root) < length root" using assms(1) by (rule dirname_shorter)
  then have "walkUp n' root (dirname root) = []" by (cases n') auto
  then show ?case by (simp add: n below_def)
next
  case (snoc s names)
  then obtain n' where n: "n = Suc n'" by (cases n) auto
  have b: "below root (names @ [s]) = below root names @ slash # s"
    by (simp add: below_def)
  have ne: "below root names \<noteq> []" "below root names \<noteq> ''/''"
    using assms(1) by (auto simp: below_def dest: arg_cong [where f = length])
  have "isName s" using snoc.prems by simp
  from dirname_child [OF this ne] have d: "dirname (below root (names @ [s])) = below root names"
    by (simp add: b)
  have len: "length root \<le> length (below root (names @ [s]))" by (simp add: below_def)
  have IH: "walkUp n' root (below root names)
      = map (\<lambda>k. below root (take k names)) (rev [0..<Suc (length names)])"
    using snoc.IH [of n'] snoc.prems n by simp
  have "map (\<lambda>k. below root (take k (names @ [s]))) (rev [0..<Suc (length names)])
      = map (\<lambda>k. below root (take k names)) (rev [0..<Suc (length names)])"
    by (rule map_cong) auto
  with IH d len show ?case by (simp add: n)
qed


lemma findNodeModuleLoop_first:
  "findNodeModuleLoop w m f ps
     = (map Exists (takeWhile (\<lambda>p. \<not> existsSync w p) ps
                      @ take 1 (dropWhile (\<lambda>p. \<not> existsSync w p) ps)),
        case find (existsSync w) ps of
          Some p \<Rightarrow> Returns p
        | None \<Rightarrow> Throws (CannotFindModule m f))"
  by (induction ps) auto

subsection \<open>The queue\<close>

lemma queueInvI:
  assumes "distinct (enqueuedPaths (trace st))"
    and "set (enqueuedPaths (trace st)) = in_queue st"
    and "enqueuedPaths (trace st) = dequeuedPaths (trace st) @ queue st"
    and "readPaths (trace st) = dequeuedPaths (trace st)"
  shows "queueInv st"
  unfolding queueInv_def using assms by blast

lemma queueInvD:
  assumes "queueInv st"
  shows "distinct (enqueuedPaths (trace st))"
    and "set (enqueuedPaths (trace st)) = in_queue st"
    and "enqueuedPaths (trace st) = dequeuedPaths (trace st) @ queue st"
    and "readPaths (trace st) = dequeuedPaths (trace st)"
  using assms unfolding queueInv_def by blast+

lemma queueInv_same:
  assumes "queueInv s"
    and "enqueuedPaths (trace s') = enqueuedPaths (trace s)"
    and "dequeuedPaths (trace s') = dequeuedPaths (trace s)"
    and "readPaths (trace s') = readPaths (trace s)"
    and "in_queue s' = in_queue s" "queue s' = queue s"
  shows "queueInv s'"
  using assms(1) unfolding queueInv_def assms(2-) .

lemma queueInv_enqueue:
  assumes "queueInv st"
  shows "queueInv (enqueue g st)"
proof (cases "g \<in> in_queue st")
  case True
  with assms show ?thesis by (simp add: enqueue_def)
next
  case False
  note q = queueInvD [OF assms]
  have s: "enqueue g st = st\<lparr>in_queue := insert g (in_queue st), queue := queue st @ [g],
      trace := trace st @ [Enqueued g]\<rparr>"
    using False by (simp add: enqueue_def)
  have n: "g \<notin> set (enqueuedPaths (trace st))"
    using False q(2) by simp
  show ?thesis
  proof (rule queueInvI)
    show "distinct (enqueuedPaths (trace (enqueue g st)))"
      using q(1) n by (simp add: s)
    show "set (enqueuedPaths (trace (enqueue g st))) = in_queue (enqueue g st)"
      using q(2) by (simp add: s)
    show "enqueuedPaths (trace (enqueue g st))
        = dequeuedPaths (trace (enqueue g st)) @ queue (enqueue g st)"
      using q(3) by (simp add: s)
    show "readPaths (trace (enqueue g st)) = dequeuedPaths (trace (enqueue g st))"
      using q(4) by (simp add: s)
  qed
qed

lemma busy_enqueue: "busy f st \<Longrightarrow> busy f (enqueue g st)"
  by (simp add: busy_def enqueue_def)

lemma idle_enqueue: "idle st \<Longrightarrow> idle (enqueue g st)"
  by (simp add: idle_def enqueue_def)

lemma queueInv_probes:
  "\<forall>e \<in> set evs. isProbe e \<Longrightarrow> queueInv st \<Longrightarrow> queueInv (st\<lparr>trace := trace st @ evs\<rparr>)"
  by (erule queueInv_same) (simp_all add: probes_project)

lemma busy_probes:
  "\<forall>e \<in> set evs. isProbe e \<Longrightarrow> busy f st \<Longrightarrow> busy f (st\<lparr>trace := trace st @ evs\<rparr>)"
  by (simp add: busy_def probes_project)

lemma processImport_queueInv:
  assumes "processImport w f ref (st, c) = Some (st', r)" "queueInv st" "busy f0 st"
  shows "queueInv st' \<and> busy f0 st'"
proof (cases r)
  case (Throws e)
  from processImport_Throws [OF assms(1) [unfolded Throws]] obtain evs where
    "resolveImport w (options st) f (fileName ref) = Some (evs, Throws e)"
    "st' = st\<lparr>trace := trace st @ evs\<rparr>"
    by blast
  with assms(2,3) resolveImport_probes show ?thesis
    by (simp add: queueInv_probes busy_probes)
next
  case (Returns c')
  show ?thesis
  proof (cases "shouldSkipImport (options st) (fileName ref)")
    case True
    with assms show ?thesis by (simp add: processImport_skip)
  next
    case False
    from processImport_Returns [OF assms(1) [unfolded Returns] False] obtain evs g where
      "resolveImport w (options st) f (fileName ref) = Some (evs, Returns g)"
      "st' = enqueue g (st\<lparr>trace := trace st @ evs\<rparr>)"
      by blast
    with assms(2,3) resolveImport_probes show ?thesis
      by (simp add: queueInv_probes busy_probes queueInv_enqueue busy_enqueue)
  qed
qed

lemma importLoop_queueInv:
  assumes "importLoop w f refs k (st, c) = Some (st', r)" "queueInv st" "busy f0 st"
  shows "queueInv st' \<and> busy f0 st'"
proof -
  have "case r of Returns c' \<Rightarrow> queueInv st' \<and> busy f0 st'
        | Throws e \<Rightarrow> queueInv st' \<and> busy f0 st'"
    by (rule importLoop_rule [OF assms(1), where I = "\<lambda>i s d. queueInv s \<and> busy f0 s"
          and T = "\<lambda>s. queueInv s \<and> busy f0 s"])
      (use assms(2,3) in \<open>auto dest: processImport_queueInv\<close>)
  then show ?thesis by (cases r) simp_all
qed

lemma dequeue_queueInv:
  assumes "queueInv s" "idle s" "queue s = f # rest"
  shows "queueInv (s\<lparr>queue := rest, trace := trace s @ [Dequeued f, ReadSource f]\<rparr>)
         \<and> busy f (s\<lparr>queue := rest, trace := trace s @ [Dequeued f, ReadSource f]\<rparr>)"
proof -
  let ?s1 = "s\<lparr>queue := rest, trace := trace s @ [Dequeued f, ReadSource f]\<rparr>"
  note q = queueInvD [OF assms(1)]
  have "queueInv ?s1"
  proof (rule queueInvI)
    show "distinct (enqueuedPaths (trace ?s1))" using q(1) by simp
    show "set (enqueuedPaths (trace ?s1)) = in_queue ?s1" using q(2) by simp
    show "enqueuedPaths (trace ?s1) = dequeuedPaths (trace ?s1) @ queue ?s1"
      using q(3) assms(3) by simp
    show "readPaths (trace ?s1) = dequeuedPaths (trace ?s1)" using q(4) by simp
  qed
  moreover from assms(2) have "busy f ?s1"
    by (simp add: idle_def busy_def)
  ultimately show ?thesis by simp
qed

lemma processFile_queueInv:
  assumes "processFile w f (s\<lparr>queue := rest, trace := trace s @ [Dequeued f]\<rparr>) = Some (s', r)"
    and "queueInv s" "idle s" "queue s = f # rest"
  shows "case r of Returns u \<Rightarrow> queueInv s' \<and> idle s' | Throws e \<Rightarrow> queueInv s' \<and> busy f s'"
proof -
  let ?s1 = "s\<lparr>queue := rest, trace := trace s @ [Dequeued f, ReadSource f]\<rparr>"
  note s1 = dequeue_queueInv [OF assms(2,3,4)]
  show ?thesis
  proof (cases "readFileSync w f")
    case None
    with assms(1) have "s' = ?s1" "r = Throws (ReadFailed f)"
      by (simp_all add: processFile_def)
    with s1 show ?thesis by simp
  next
    case (Some c)
    note s1' = s1 [THEN conjunct1] s1 [THEN conjunct2]
    from Some assms(1) obtain s2 r2 where
      loop: "importLoop w f (preProcessFile w c) (length (preProcessFile w c)) (?s1, c)
               = Some (s2, r2)"
      by (auto simp: processFile_def Let_def split: option.splits)
    note s2 = importLoop_queueInv [OF loop s1']
    show ?thesis
    proof (cases r2)
      case (Throws e)
      with assms(1) Some loop have "s' = s2" "r = Throws e"
        by (simp_all add: processFile_def Let_def)
      with s2 show ?thesis by simp
    next
      case (Returns c')
      with assms(1) Some loop have wr: "write_file w f c' s2 = Some s'" and r: "r = Returns ()"
        by (auto simp: processFile_def Let_def split: option.splits)
      from write_file_effect [OF wr] obtain S ds dest where
        s': "s' = s2\<lparr>seenDir := S, trace := trace s2 @ map Mkdir ds @ [Written f dest c']\<rparr>"
        by blast
      have "queueInv s'"
        by (rule queueInv_same [OF s2 [THEN conjunct1]]) (simp_all add: s')
      moreover have "idle s'"
        using s2 [THEN conjunct2] by (simp add: s' busy_def idle_def)
      ultimately show ?thesis using r by simp
    qed
  qed
qed

lemma queueInv_enqueueEntryPoints:
  "queueInv (enqueueEntryPoints (initialState opts))"
  "idle (enqueueEntryPoints (initialState opts))"
proof -
  have step: "queueInv s0 \<and> idle s0 \<Longrightarrow>
        queueInv (foldl (\<lambda>s filePath. enqueue (join [ESM_SRC (options s), filePath]) s) s0 es) \<and>
        idle (foldl (\<lambda>s filePath. enqueue (join [ESM_SRC (options s), filePath]) s) s0 es)"
    for s0 es
  proof (induction es arbitrary: s0)
    case Nil
    then show ?case by simp
  next
    case (Cons e es)
    from Cons.prems have "queueInv (enqueue (join [ESM_SRC (options s0), e]) s0) \<and>
        idle (enqueue (join [ESM_SRC (options s0), e]) s0)"
      by (simp add: queueInv_enqueue idle_enqueue)
    from Cons.IH [OF this] show ?case by simp
  qed
  have "queueInv (initialState opts) \<and> idle (initialState opts)"
    by (simp add: queueInv_def idle_def initialState_def Let_def)
  from step [OF this] show "queueInv (enqueueEntryPoints (initialState opts))"
    "idle (enqueueEntryPoints (initialState opts))"
    unfolding enqueueEntryPoints_def by simp_all
qed

lemma packageESM_queueInv:
  assumes "packageESM w opts = Some (st, r)"
  shows "case r of Returns u \<Rightarrow> (queueInv st \<and> idle st) \<and> queue st = []
         | Throws e \<Rightarrow> queueInv st \<and> (\<exists>f. busy f st)"
proof (rule mainLoop_rule [OF assms [unfolded packageESM_def],
        where I = "\<lambda>s. queueInv s \<and> idle s" and T = "\<lambda>s. queueInv s \<and> (\<exists>f. busy f s)"])
  show "queueInv (enqueueEntryPoints (initialState opts)) \<and>
        idle (enqueueEntryPoints (initialState opts))"
    using queueInv_enqueueEntryPoints by simp
next
  fix s f rest s' r'
  assume "queueInv s \<and> idle s" "queue s = f # rest"
    "processFile w f (s\<lparr>queue := rest, trace := trace s @ [Dequeued f]\<rparr>) = Some (s', r')"
  from processFile_queueInv [OF this(3)] this(1,2)
  show "case r' of Returns u \<Rightarrow> queueInv s' \<and> idle s'
        | Throws e \<Rightarrow> queueInv s' \<and> (\<exists>f. busy f s')"
    by (cases r') auto
qed

subsection \<open>Edits\<close>





subsection \<open>The import loop and the text\<close>







subsection \<open>The specifier\<close>






subsection \<open>What is written\<close>

lemma writes_append [simp]: "writes (xs @ ys) = writes xs @ writes ys"
  by (induction xs rule: writes.induct) simp_all


lemma writes_mkdirs [simp]: "writes (map Mkdir ds) = []"
  by (induction ds) simp_all

lemma writes_enqueue [simp]: "writes (trace (enqueue g st)) = writes (trace st)"
  by (simp add: enqueue_def)







subsection \<open>The example\<close>



subsection \<open>Reading off an evaluated run\<close>

lemma returned_run:
  assumes "case x of Some (st, Returns u) \<Rightarrow> P st | _ \<Rightarrow> False"
  shows "\<exists>st. x = Some (st, Returns ()) \<and> P st"
proof (cases x)
  case None
  with assms show ?thesis by simp
next
  case (Some y)
  obtain st r where y: "y = (st, r)" by (cases y)
  show ?thesis
  proof (cases r)
    case (Throws e)
    with assms Some y show ?thesis by simp
  next
    case (Returns u)
    with assms Some y show ?thesis by simp
  qed
qed

subsection \<open>Reachability\<close>






lemma written_enqueue [simp]:
  "writtenSources (trace (enqueue g st)) = writtenSources (trace st)"
  by (simp add: enqueue_def)













subsection \<open>Manifests\<close>

lemma manifestPaths_append [simp]:
  "manifestPaths (xs @ ys) = manifestPaths xs @ manifestPaths ys"
  by (induction xs rule: manifestPaths.induct) simp_all













section \<open>Properties of the specification\<close>




text \<open>
  C2. In a run that comes back, by returning or by throwing: no path is pushed onto the
  queue twice, none is shifted off it twice, none is read by the main loop twice and
  none is handed to \<open>write\<close> twice. The paths shifted are the first of those pushed, in
  the same order, each one read when shifted, and the paths written are the first of
  those shifted. The keys of \<open>in_queue\<close> are the paths pushed, and \<open>enqueue\<close> of such a
  path does nothing.
\<close>

theorem packageESM_once:
  assumes "packageESM w opts = Some (st, r)"
  shows "distinct (enqueuedPaths (trace st)) \<and>
         distinct (dequeuedPaths (trace st)) \<and>
         distinct (readPaths (trace st)) \<and>
         distinct (writtenSources (trace st)) \<and>
         readPaths (trace st) = dequeuedPaths (trace st) \<and>
         prefix (dequeuedPaths (trace st)) (enqueuedPaths (trace st)) \<and>
         prefix (writtenSources (trace st)) (dequeuedPaths (trace st)) \<and>
         in_queue st = set (enqueuedPaths (trace st)) \<and>
         (\<forall>g s. g \<in> in_queue s \<longrightarrow> enqueue g s = s)"
proof -
  note inv = packageESM_queueInv [OF assms]
  have q: "queueInv st"
    using inv by (cases r) simp_all
  have b: "idle st \<or> (\<exists>f. busy f st)"
    using inv by (cases r) simp_all
  from q have d: "distinct (enqueuedPaths (trace st))"
    unfolding queueInv_def by blast
  from q have e: "enqueuedPaths (trace st) = dequeuedPaths (trace st) @ queue st"
    unfolding queueInv_def by blast
  from q have rd: "readPaths (trace st) = dequeuedPaths (trace st)"
    unfolding queueInv_def by blast
  from d have dd: "distinct (dequeuedPaths (trace st))"
    unfolding e by simp
  from b obtain rest where p: "dequeuedPaths (trace st) = writtenSources (trace st) @ rest"
    unfolding idle_def busy_def by auto
  from dd have dw: "distinct (writtenSources (trace st))"
    unfolding p by simp
  have pe: "prefix (dequeuedPaths (trace st)) (enqueuedPaths (trace st))"
    unfolding e by simp
  have pw: "prefix (writtenSources (trace st)) (dequeuedPaths (trace st))"
    unfolding p by simp
  have k: "in_queue st = set (enqueuedPaths (trace st))"
    by (rule queueInvD(2) [OF q, symmetric])
  have n: "\<forall>g s. g \<in> in_queue s \<longrightarrow> enqueue g s = s"
    by (simp add: enqueue_def)
  from dd have dr: "distinct (readPaths (trace st))"
    unfolding rd .
  show ?thesis
    by (intro conjI) (rule d dd dr dw rd pe pw k n)+
qed


text \<open>In the example \<open>a.js\<close> and \<open>b.js\<close> import each other, and each is handled once.\<close>

theorem packageESM_once_witness:
  "\<exists>st. packageESM demoWorld demoOptions = Some (st, Returns ()) \<and>
     enqueuedPaths (trace st)
       = [''/repo/src/a.js'', ''/repo/node_modules/dep/esm/index.js'', ''/repo/src/b.js''] \<and>
     distinct (enqueuedPaths (trace st)) \<and>
     distinct (dequeuedPaths (trace st)) \<and>
     distinct (readPaths (trace st)) \<and>
     distinct (writtenSources (trace st))"
proof -
  have "case packageESM demoWorld demoOptions of
          Some (st, Returns u) \<Rightarrow>
            enqueuedPaths (trace st)
              = [''/repo/src/a.js'', ''/repo/node_modules/dep/esm/index.js'', ''/repo/src/b.js'']
        | _ \<Rightarrow> False"
    by code_simp
  from returned_run [OF this]
  obtain st where run: "packageESM demoWorld demoOptions = Some (st, Returns ())"
    and e: "enqueuedPaths (trace st)
              = [''/repo/src/a.js'', ''/repo/node_modules/dep/esm/index.js'', ''/repo/src/b.js'']"
    by blast
  note t = packageESM_once [OF run]
  from t have "distinct (enqueuedPaths (trace st))"
    by (rule conjunct1)
  moreover from t have "distinct (dequeuedPaths (trace st))"
    by (rule conjunct2 [THEN conjunct1])
  moreover from t have "distinct (readPaths (trace st))"
    by (rule conjunct2 [THEN conjunct2, THEN conjunct1])
  moreover from t have "distinct (writtenSources (trace st))"
    by (rule conjunct2 [THEN conjunct2, THEN conjunct2, THEN conjunct1])
  ultimately show ?thesis
    using run e by (intro exI [of _ st]) simp
qed








text \<open>
  C6, as the code has it. With a repository root of at least two characters,
  \<open>findNodeModule\<close> returns: it tests \<open>dir/node_modules/M\<close> for the directory of \<open>F\<close>
  and then for each parent in turn, as long as the directory's path is at least as long
  as the root's, up to and including the first candidate that exists, which it selects;
  when none exists it throws the error that names \<open>M\<close> and \<open>F\<close>. When the directory of
  \<open>F\<close> lies below the root, the directories walked are that directory, its ancestors
  and last the root itself.
\<close>

theorem findNodeModule_walk:
  assumes "2 \<le> length root"
  shows "findNodeModule w root m f =
           (let ps = map (candidate m) (walkUp (length (dirname f)) root (dirname f))
            in Some (map Exists (takeWhile (\<lambda>p. \<not> existsSync w p) ps
                                   @ take 1 (dropWhile (\<lambda>p. \<not> existsSync w p) ps)),
                     case find (existsSync w) ps of
                       Some p \<Rightarrow> Returns p
                     | None \<Rightarrow> Throws (CannotFindModule m f)))
         \<and> (\<forall>names. dirname f = below root names \<and> (\<forall>s \<in> set names. isName s) \<longrightarrow>
               walkUp (length (dirname f)) root (dirname f)
                 = map (\<lambda>k. below root (take k names)) (rev [0..<Suc (length names)]))"
proof (intro conjI allI impI)
  show "findNodeModule w root m f =
           (let ps = map (candidate m) (walkUp (length (dirname f)) root (dirname f))
            in Some (map Exists (takeWhile (\<lambda>p. \<not> existsSync w p) ps
                                   @ take 1 (dropWhile (\<lambda>p. \<not> existsSync w p) ps)),
                     case find (existsSync w) ps of
                       Some p \<Rightarrow> Returns p
                     | None \<Rightarrow> Throws (CannotFindModule m f)))"
    using generatePathsLoop_walk [OF assms, of "dirname f" "length (dirname f)" m "[]"]
    by (simp add: findNodeModule_def generatePaths_def findNodeModuleLoop_first Let_def)
next
  fix names
  assume a: "dirname f = below root names \<and> (\<forall>s \<in> set names. isName s)"
  have "length names < length (below root names)"
  proof -
    have "length names \<le> length (concat (map (\<lambda>s. slash # s) names))"
      by (induction names) auto
    with assms show ?thesis by (simp add: below_def)
  qed
  with walkUp_below [OF assms, of names "length (below root names)"] a
  show "walkUp (length (dirname f)) root (dirname f)
          = map (\<lambda>k. below root (take k names)) (rev [0..<Suc (length names)])"
    by simp
qed

text \<open>The walk from \<open>/repo/src/a.js\<close>: \<open>/repo/src\<close>, then the root, where \<open>dep\<close> is.\<close>

theorem findNodeModule_walk_witness:
  "2 \<le> length ''/repo''
   \<and> findNodeModule demoWorld ''/repo'' ''dep'' ''/repo/src/a.js''
       = Some ([Exists ''/repo/src/node_modules/dep'', Exists ''/repo/node_modules/dep''],
               Returns ''/repo/node_modules/dep'')
   \<and> dirname ''/repo/src/a.js'' = below ''/repo'' [''src''] \<and> isName ''src''
   \<and> walkUp (length (dirname ''/repo/src/a.js'')) ''/repo'' (dirname ''/repo/src/a.js'')
       = [''/repo/src'', ''/repo'']"
proof -
  have h: "2 \<le> length ''/repo''" by simp
  have d: "dirname ''/repo/src/a.js'' = below ''/repo'' [''src'']" by code_simp
  have n: "isName ''src''" by code_simp
  have e: "map (\<lambda>k. below ''/repo'' (take k [''src''])) (rev [0..<Suc (length [''src''])])
      = [''/repo/src'', ''/repo'']"
    by code_simp
  note t = findNodeModule_walk [OF h, of demoWorld "''dep''" "''/repo/src/a.js''"]
  have "walkUp (length (dirname ''/repo/src/a.js'')) ''/repo'' (dirname ''/repo/src/a.js'')
       = map (\<lambda>k. below ''/repo'' (take k [''src''])) (rev [0..<Suc (length [''src''])])"
    using t [THEN conjunct2, rule_format, of "[''src'']"] d n by simp
  with e have w: "walkUp (length (dirname ''/repo/src/a.js'')) ''/repo'' (dirname ''/repo/src/a.js'')
       = [''/repo/src'', ''/repo'']"
    by simp
  have c: "map (candidate ''dep'') [''/repo/src'', ''/repo'']
      = [''/repo/src/node_modules/dep'', ''/repo/node_modules/dep'']"
    by code_simp
  have x: "\<not> existsSync demoWorld ''/repo/src/node_modules/dep''"
    "existsSync demoWorld ''/repo/node_modules/dep''"
    by code_simp+
  from t [THEN conjunct1] w c x
  have "findNodeModule demoWorld ''/repo'' ''dep'' ''/repo/src/a.js''
       = Some ([Exists ''/repo/src/node_modules/dep'', Exists ''/repo/node_modules/dep''],
               Returns ''/repo/node_modules/dep'')"
    by (simp add: Let_def)
  with h d n w show ?thesis by simp
qed

text \<open>
  C6 as stated fails twice. With the root \<open>.\<close> the walk never ends, so no error is
  thrown; and from a file outside the root (an alias target) the root is never tested,
  although \<open>dep\<close> is installed there.
\<close>

theorem findNodeModule_walk_counterexample:
  "findNodeModule demoWorld ''.'' ''dep'' ''src/a.js'' = None
   \<and> existsSync demoWorld ''/repo/node_modules/dep''
   \<and> findNodeModule demoWorld ''/repo'' ''dep'' ''/alias/lib.js''
       = Some ([Exists ''/alias/node_modules/dep''],
               Throws (CannotFindModule ''dep'' ''/alias/lib.js''))"
proof -
  have "findNodeModule demoWorld ''.'' ''dep'' ''src/a.js'' = None"
    using generatePathsLoop_diverges [of "''.''" "dirname ''src/a.js''" "''dep''" "[]"]
      dirname_nonempty
    by (simp add: findNodeModule_def generatePaths_def)
  moreover have "existsSync demoWorld ''/repo/node_modules/dep''" by code_simp
  moreover have "findNodeModule demoWorld ''/repo'' ''dep'' ''/alias/lib.js''
       = Some ([Exists ''/alias/node_modules/dep''],
               Throws (CannotFindModule ''dep'' ''/alias/lib.js''))"
    by code_simp
  ultimately show ?thesis by simp
qed




text \<open>
  C8 at a table whose key is written with backslashes: the pattern is found under its
  forward-slash form, the table is then read at that form and not at the key, and the
  text \<open>undefined\<close> is what replaces the pattern.
\<close>

theorem computeDestinationFilePath_backslash_key:
  "destinationFolderSimplification backslashOptions
     = [(''node_modules'' @ [backslash] @ ''dep'' @ [backslash] @ ''esm'', ''dep'')]
   \<and> computeDestinationFilePath demoWorld backslashOptions
         ''/repo/node_modules/dep/esm/index.js''
       = Some ''/repo/out/undefined/index.js''"
  by code_simp



text \<open>
  C10. \<open>packageESM\<close> changes its \<open>options\<close> argument: whenever the call comes back, by
  returning or by throwing, \<open>options.repoRoot\<close> holds the normalized root without its
  trailing separator, and every other field is as the caller passed it.
\<close>

theorem packageESM_options:
  assumes "packageESM w opts = Some (st, r)"
  shows "options st = opts\<lparr>repoRoot := stripTrailingSeparator (normalize (repoRoot opts))\<rparr>"
  using mainLoop_options [OF assms [unfolded packageESM_def]]
  by (simp add: initialState_def Let_def)

theorem packageESM_options_witness:
  "\<exists>st. packageESM demoWorld demoOptions = Some (st, Returns ()) \<and>
        options st = demoOptions\<lparr>repoRoot := ''/repo''\<rparr>"
proof -
  have "case packageESM demoWorld demoOptions of
          Some (st, Returns u) \<Rightarrow> True | _ \<Rightarrow> False"
    by code_simp
  from returned_run [OF this]
  obtain st where run: "packageESM demoWorld demoOptions = Some (st, Returns ())"
    by blast
  have "stripTrailingSeparator (normalize (repoRoot demoOptions)) = ''/repo''"
    by code_simp
  with packageESM_options [OF run] run show ?thesis by auto
qed

end
